theory Spec2Isabelle
  imports Complex_Main
begin

section \<open>Data model (types.ts)\<close>

datatype AppMode = FIRST_AID | ROBOTICS | MECHANICAL | CODING | TRADES | GENERAL

datatype AppState = HOME | INITIAL_CAPTURE | CAPTURE_COMPLETE | VOICE_DESCRIPTION | ANALYZING
  | ANALYSIS_COMPLETE | PREPARING_INSTRUCTIONS | GUIDANCE | STEP_VALIDATION | ESCALATION | COMPLETED

record Material =
  name :: string
  alternative :: "string option"

datatype ArOverlayType = Arrow | Circle | Hand | Press | Wash | Scan | Code | Bolt | Gear

text \<open>
  \<open>GuidanceStep.id\<close> is called \<open>step_id\<close> here. Optional fields (\<open>duration?\<close>, ...) are options.
\<close>

record GuidanceStep =
  step_id :: int
  title :: string
  instruction :: string
  duration :: "string option"
  materials :: "Material list option"
  warnings :: "string list option"
  checkpoints :: "string list option"
  audioPrompt :: string
  arOverlayType :: ArOverlayType

datatype Severity = LOW | MEDIUM | HIGH

record AnalysisResult =
  category :: string
  confidence :: rat
  reasoning :: string
  severity :: Severity
  uncertainties :: "string list option"
  isSafeToProceed :: bool
  steps :: "GuidanceStep list"

text \<open>The value \<open>verifyStep\<close> promises: \<open>{ success: boolean; feedback: string }\<close>.\<close>

record Feedback =
  success :: bool
  feedback :: string

section \<open>The service (services/geminiService.ts)\<close>

text \<open>
  A JavaScript exception or promise rejection is a value of \<open>error\<close>; a settled promise of
  type \<open>Promise<T>\<close> is a value of \<open>error + T\<close> (\<open>Inl\<close> rejected, \<open>Inr\<close> fulfilled).
\<close>

datatype error = TypeError | Error string

text \<open>The part of the reply of \<open>ai.models.generateContent\<close> that the service reads: \<open>response.text\<close>.\<close>

record GenerateContentResponse =
  response_text :: "string option"

text \<open>\<open>response.text || '{}'\<close>: an absent and an empty text are both falsy.\<close>

definition or_empty_object :: "string option \<Rightarrow> string" where
  "or_empty_object t = (case t of None \<Rightarrow> ''{}'' | Some s \<Rightarrow> if s = [] then ''{}'' else s)"

text \<open>
  \<open>analyzeSituation\<close> after its \<open>await\<close>. The arguments of the source (mode, the two images, the
  note) only build the request; what the function does with the reply does not read them, so the
  model takes the settled call \<open>generated\<close> instead. The \<open>await\<close> stands outside the \<open>try\<close>: a
  rejected call rejects \<open>analyzeSituation\<close> with the same error. \<open>JSON.parse\<close> is the
  parameter \<open>JSON_parse\<close>: \<open>None\<close> where \<open>JSON.parse\<close> throws, \<open>Some v\<close> for the value it
  returns. The cast \<open>as AnalysisResult\<close> checks nothing and the function never looks into the
  value, so the model is the same function for every type \<open>'v\<close> of parsed values: at
  \<open>AnalysisResult\<close> for a reply of the shape the cast claims, at \<open>json\<close> for any reply.
\<close>

datatype json = JNull | JBool bool | JNumber rat | JString string | JArray "json list"
  | JObject "(string \<times> json) list"

definition analyzeSituation ::
  "(string \<Rightarrow> 'v option) \<Rightarrow> error + GenerateContentResponse \<Rightarrow> error + 'v" where
  "analyzeSituation JSON_parse generated =
     (case generated of
        Inl e \<Rightarrow> Inl e
      | Inr response \<Rightarrow>
          (case JSON_parse (or_empty_object (response_text response)) of
             Some v \<Rightarrow> Inr v
           | None \<Rightarrow> Inl (Error ''Failed to parse AI response'')))"

text \<open>\<open>verifyStep\<close> after its \<open>await\<close>, which also stands outside the \<open>try\<close>.\<close>

definition verifyStep ::
  "(string \<Rightarrow> Feedback option) \<Rightarrow> error + GenerateContentResponse \<Rightarrow> error + Feedback" where
  "verifyStep JSON_parse generated =
     (case generated of
        Inl e \<Rightarrow> Inl e
      | Inr response \<Rightarrow>
          (case JSON_parse (or_empty_object (response_text response)) of
             Some v \<Rightarrow> Inr v
           | None \<Rightarrow> Inr \<lparr>success = True, feedback = ''Unable to verify, but proceeding safely.''\<rparr>))"

section \<open>The component state (App.tsx)\<close>

text \<open>The \<open>useState\<close> variables of \<open>App\<close>. \<open>overrideProgress\<close> is a percentage.\<close>

record session =
  state :: AppState
  mode :: AppMode
  wideImage :: "string option"
  macroImage :: "string option"
  isCapturing :: bool
  analysis :: "AnalysisResult option"
  currentStepIdx :: int
  isBusy :: bool
  voiceDescription :: "string option"
  verificationFeedback :: "Feedback option"
  overrideHeld :: bool
  overrideProgress :: rat

definition startAssessment :: "AppMode \<Rightarrow> session \<Rightarrow> session" where
  "startAssessment selectedMode s =
     s\<lparr>mode := selectedMode, wideImage := None, macroImage := None, voiceDescription := None,
       state := INITIAL_CAPTURE\<rparr>"

text \<open>\<open>!wideImage\<close> on a \<open>string | null\<close>: \<open>null\<close> and the empty string are falsy.\<close>

definition falsy :: "string option \<Rightarrow> bool" where
  "falsy v = (v = None \<or> v = Some [])"

text \<open>\<open>steps[i]\<close> is \<open>undefined\<close> outside the array; reading a property of it throws.\<close>

definition step_at :: "AnalysisResult \<Rightarrow> int \<Rightarrow> GuidanceStep option" where
  "step_at a i = (if 0 \<le> i \<and> i < int (length (steps a)) then Some (steps a ! nat i) else None)"

text \<open>
  How a call of an \<open>async\<close> handler leaves its synchronous part: it returned, it waits
  for a request, or it threw. State updates made before a throw stay.
\<close>

datatype 'r completion = Returned | Awaiting 'r | Thrown error

text \<open>
  \<open>handleCapture\<close> up to its \<open>await\<close>. The request is the pair (instruction, image) handed to
  \<open>verifyStep\<close>.
\<close>

definition handleCapture :: "string \<Rightarrow> session \<Rightarrow> session \<times> (string \<times> string) completion" where
  "handleCapture data s =
     (let s1 = s\<lparr>isCapturing := False\<rparr> in
      if state s = INITIAL_CAPTURE then
        (if falsy (wideImage s) then (s1\<lparr>wideImage := Some data\<rparr>, Returned)
         else (s1\<lparr>macroImage := Some data, state := CAPTURE_COMPLETE\<rparr>, Returned))
      else if state s = STEP_VALIDATION then
        (let s2 = s1\<lparr>isBusy := True\<rparr> in
         case analysis s of
           None \<Rightarrow> (s2, Thrown TypeError)
         | Some a \<Rightarrow>
             (case step_at a (currentStepIdx s) of
                None \<Rightarrow> (s2, Thrown TypeError)
              | Some st \<Rightarrow> (s2, Awaiting (instruction st, data))))
      else (s1, Returned))"

text \<open>
  \<open>handleCapture\<close> from its \<open>await\<close> on, given how \<open>verifyStep\<close> settled. There is no
  \<open>try\<close> around the \<open>await\<close>: a rejection leaves the handler at once.
\<close>

definition handleCapture_settled :: "error + Feedback \<Rightarrow> session \<Rightarrow> error + session" where
  "handleCapture_settled r s =
     (case r of
        Inl e \<Rightarrow> Inl e
      | Inr result \<Rightarrow> Inr (s\<lparr>verificationFeedback := Some result, isBusy := False\<rparr>))"

text \<open>\<open>triggerAnalysis\<close> up to its \<open>await\<close>, and from there on (\<open>try\<close>/\<open>catch\<close>/\<open>finally\<close>).\<close>

definition triggerAnalysis :: "session \<Rightarrow> session" where
  "triggerAnalysis s = s\<lparr>state := ANALYZING, isBusy := True\<rparr>"

definition triggerAnalysis_settled :: "error + AnalysisResult \<Rightarrow> session \<Rightarrow> session" where
  "triggerAnalysis_settled r s =
     (case r of
        Inr res \<Rightarrow> s\<lparr>analysis := Some res, state := ANALYSIS_COMPLETE, isBusy := False\<rparr>
      | Inl err \<Rightarrow> s\<lparr>state := HOME, isBusy := False\<rparr>)"

text \<open>\<open>startGuidance\<close>, and the callback of its 400 ms timeout.\<close>

definition startGuidance :: "session \<Rightarrow> session" where
  "startGuidance s = s\<lparr>state := PREPARING_INSTRUCTIONS\<rparr>"

definition startGuidance_timeout :: "session \<Rightarrow> session" where
  "startGuidance_timeout s = s\<lparr>state := GUIDANCE, currentStepIdx := 0\<rparr>"

text \<open>
  A handler is a closure of the render that created it: it reads the state variables of that
  render \<open>r\<close>, and its setters write the live state \<open>s\<close>. A handler called from the screen runs
  in the current render (\<open>r = s\<close>); the interval callback of the override keeps the render of
  its pointer-down. \<open>analysis!.steps\<close> throws when \<open>analysis\<close> is \<open>null\<close>.
  \<open>playInstructionAudio\<close> catches its own errors and touches no state; it is left out.
\<close>

definition proceedNext :: "session \<Rightarrow> session \<Rightarrow> error + session" where
  "proceedNext r s =
     (case analysis r of
        None \<Rightarrow> Inl TypeError
      | Some a \<Rightarrow>
          if currentStepIdx r < int (length (steps a)) - 1 then
            (let nextIdx = currentStepIdx r + 1 in
             Inr (s\<lparr>currentStepIdx := nextIdx, verificationFeedback := None, state := GUIDANCE\<rparr>))
          else Inr (s\<lparr>state := COMPLETED\<rparr>))"

text \<open>The two Retake buttons of the CAPTURE_COMPLETE screen, and the other inline handlers.\<close>

definition retakeContext :: "session \<Rightarrow> session" where
  "retakeContext s = s\<lparr>wideImage := None, state := INITIAL_CAPTURE\<rparr>"

definition retakeDetail :: "session \<Rightarrow> session" where
  "retakeDetail s = s\<lparr>macroImage := None, state := INITIAL_CAPTURE\<rparr>"

section \<open>Timers, pending calls and events\<close>

text \<open>
  An interval of \<open>window.setInterval\<close> that is still scheduled: the \<open>startTime\<close> its callback
  closed over, and the render whose \<open>proceedNext\<close> it calls.
\<close>

record interval =
  startTime :: int
  render :: session

text \<open>
  The whole application: the component state, the ref \<open>progressInterval\<close>, the scheduled
  intervals by id, the calls and timeouts that have not settled yet, and the errors no handler
  caught. The ref \<open>longPressTimer\<close> is never read or written and is left out.
\<close>

record app =
  ui :: session
  progressInterval :: "nat option"
  intervals :: "(nat \<times> interval) list"
  lastTimerId :: nat
  analysisInFlight :: nat
  verifyInFlight :: nat
  guidanceTimeouts :: nat
  uncaught :: "error list"

definition initial :: app where
  "initial =
     \<lparr>ui = \<lparr>state = HOME, mode = FIRST_AID, wideImage = None, macroImage = None,
             isCapturing = False, analysis = None, currentStepIdx = 0, isBusy = False,
             voiceDescription = None, verificationFeedback = None, overrideHeld = False,
             overrideProgress = 0\<rparr>,
       progressInterval = None, intervals = [], lastTimerId = 0, analysisInFlight = 0,
       verifyInFlight = 0, guidanceTimeouts = 0, uncaught = []\<rparr>"

definition clearInterval :: "nat \<Rightarrow> app \<Rightarrow> app" where
  "clearInterval i a = a\<lparr>intervals := filter (\<lambda>(j, iv). j \<noteq> i) (intervals a)\<rparr>"

text \<open>
  \<open>handleOverrideStart\<close>, called at time \<open>now\<close>. Timer ids are positive and fresh. An interval
  that is already scheduled is not cleared: the ref is overwritten.
\<close>

definition handleOverrideStart :: "int \<Rightarrow> app \<Rightarrow> app" where
  "handleOverrideStart now a =
     (let i = Suc (lastTimerId a) in
      a\<lparr>ui := (ui a)\<lparr>overrideHeld := True, overrideProgress := 0\<rparr>,
        intervals := (i, \<lparr>startTime = now, render = ui a\<rparr>) # intervals a,
        progressInterval := Some i,
        lastTimerId := i\<rparr>)"

text \<open>
  The interval callback, run at time \<open>now\<close>. \<open>elapsed\<close> is a whole number of milliseconds;
  the progress is computed in exact arithmetic.
\<close>

definition intervalCallback :: "interval \<Rightarrow> int \<Rightarrow> app \<Rightarrow> app" where
  "intervalCallback iv now a =
     (let elapsed = now - startTime iv;
          progress = min ((of_int elapsed / 1500) * 100) (100 :: rat);
          a1 = a\<lparr>ui := (ui a)\<lparr>overrideProgress := progress\<rparr>\<rparr>
      in
      if progress \<ge> 100 then
        (let a2 = (case progressInterval a1 of Some i \<Rightarrow> clearInterval i a1 | None \<Rightarrow> a1) in
         case proceedNext (render iv) (ui a2) of
           Inl e \<Rightarrow> a2\<lparr>uncaught := uncaught a2 @ [e]\<rparr>
         | Inr s \<Rightarrow> a2\<lparr>ui := s\<lparr>overrideHeld := False, overrideProgress := 0\<rparr>\<rparr>)
      else a1)"

definition handleOverrideEnd :: "app \<Rightarrow> app" where
  "handleOverrideEnd a =
     (let a1 = (case progressInterval a of
                  Some i \<Rightarrow> (clearInterval i a)\<lparr>progressInterval := None\<rparr>
                | None \<Rightarrow> a)
      in a1\<lparr>ui := (ui a1)\<lparr>overrideHeld := False, overrideProgress := 0\<rparr>\<rparr>)"

text \<open>
  What can happen to the application: the buttons of the screen that is rendered, the settling
  of a pending call, a timeout, a tick of a scheduled interval. \<open>Snap\<close> is the shutter button
  followed by the camera's \<open>onCapture\<close>.
\<close>

datatype event =
    SelectMode AppMode
  | GoHome
  | Snap string
  | RetakeContext
  | RetakeDetail
  | Analyze
  | AnalysisResolved "error + AnalysisResult"
  | StartGuidance
  | GuidanceTimeout
  | SnapToVerify
  | VerifyResolved "error + Feedback"
  | RetryCapture
  | ConfirmProceed
  | PointerDown int
  | PointerUp
  | Tick nat int

text \<open>The screens that render the header with its close button.\<close>

definition header_shown :: "session \<Rightarrow> bool" where
  "header_shown s =
     (state s = INITIAL_CAPTURE \<or> state s = STEP_VALIDATION \<or> state s = CAPTURE_COMPLETE
      \<or> (state s = ANALYSIS_COMPLETE \<and> analysis s \<noteq> None)
      \<or> (state s = GUIDANCE \<and> analysis s \<noteq> None))"

text \<open>
  \<open>fire e a\<close> is \<open>None\<close> when the event cannot happen in \<open>a\<close> (its button is not rendered or is
  disabled, nothing is pending, the interval is not scheduled). Otherwise it is the state of
  the mounted component when the handler or callback of the event has run, before React
  renders it again; the render that follows is \<open>render_error\<close>, and \<open>step\<close> puts the two
  together.
\<close>

fun fire :: "event \<Rightarrow> app \<Rightarrow> app option" where
  "fire (SelectMode m) a =
     (if state (ui a) = HOME then Some (a\<lparr>ui := startAssessment m (ui a)\<rparr>) else None)"
| "fire GoHome a =
     (if header_shown (ui a) \<or> state (ui a) = ESCALATION \<or> state (ui a) = COMPLETED
      then Some (a\<lparr>ui := (ui a)\<lparr>state := HOME\<rparr>\<rparr>) else None)"
| "fire (Snap data) a =
     (if (state (ui a) = INITIAL_CAPTURE \<or> state (ui a) = STEP_VALIDATION) \<and> \<not> isBusy (ui a) then
        (case handleCapture data ((ui a)\<lparr>isCapturing := True\<rparr>) of
           (s, Returned) \<Rightarrow> Some (a\<lparr>ui := s\<rparr>)
         | (s, Awaiting request) \<Rightarrow> Some (a\<lparr>ui := s, verifyInFlight := Suc (verifyInFlight a)\<rparr>)
         | (s, Thrown e) \<Rightarrow> Some (a\<lparr>ui := s, uncaught := uncaught a @ [e]\<rparr>))
      else None)"
| "fire RetakeContext a =
     (if state (ui a) = CAPTURE_COMPLETE then Some (a\<lparr>ui := retakeContext (ui a)\<rparr>) else None)"
| "fire RetakeDetail a =
     (if state (ui a) = CAPTURE_COMPLETE then Some (a\<lparr>ui := retakeDetail (ui a)\<rparr>) else None)"
| "fire Analyze a =
     (if state (ui a) = CAPTURE_COMPLETE
      then Some (a\<lparr>ui := triggerAnalysis (ui a), analysisInFlight := Suc (analysisInFlight a)\<rparr>)
      else None)"
| "fire (AnalysisResolved r) a =
     (if 0 < analysisInFlight a
      then Some (a\<lparr>ui := triggerAnalysis_settled r (ui a), analysisInFlight := analysisInFlight a - 1\<rparr>)
      else None)"
| "fire StartGuidance a =
     (if state (ui a) = ANALYSIS_COMPLETE \<and> analysis (ui a) \<noteq> None
      then Some (a\<lparr>ui := startGuidance (ui a), guidanceTimeouts := Suc (guidanceTimeouts a)\<rparr>)
      else None)"
| "fire GuidanceTimeout a =
     (if 0 < guidanceTimeouts a
      then Some (a\<lparr>ui := startGuidance_timeout (ui a), guidanceTimeouts := guidanceTimeouts a - 1\<rparr>)
      else None)"
| "fire SnapToVerify a =
     (if state (ui a) = GUIDANCE \<and> analysis (ui a) \<noteq> None
      then Some (a\<lparr>ui := (ui a)\<lparr>state := STEP_VALIDATION\<rparr>\<rparr>) else None)"
| "fire (VerifyResolved r) a =
     (if 0 < verifyInFlight a then
        (case handleCapture_settled r (ui a) of
           Inl e \<Rightarrow> Some (a\<lparr>verifyInFlight := verifyInFlight a - 1, uncaught := uncaught a @ [e]\<rparr>)
         | Inr s \<Rightarrow> Some (a\<lparr>ui := s, verifyInFlight := verifyInFlight a - 1\<rparr>))
      else None)"
| "fire RetryCapture a =
     (case verificationFeedback (ui a) of
        None \<Rightarrow> None
      | Some f \<Rightarrow>
          if state (ui a) = STEP_VALIDATION \<and> \<not> success f
          then Some (a\<lparr>ui := (ui a)\<lparr>verificationFeedback := None\<rparr>\<rparr>) else None)"
| "fire ConfirmProceed a =
     (if state (ui a) = STEP_VALIDATION \<and> verificationFeedback (ui a) \<noteq> None then
        (case proceedNext (ui a) (ui a) of
           Inl e \<Rightarrow> Some (a\<lparr>uncaught := uncaught a @ [e]\<rparr>)
         | Inr s \<Rightarrow> Some (a\<lparr>ui := s\<rparr>))
      else None)"
| "fire (PointerDown now) a =
     (if state (ui a) = GUIDANCE \<and> analysis (ui a) \<noteq> None
      then Some (handleOverrideStart now a) else None)"
| "fire PointerUp a =
     (if state (ui a) = GUIDANCE \<and> analysis (ui a) \<noteq> None
      then Some (handleOverrideEnd a) else None)"
| "fire (Tick i now) a =
     (case map_of (intervals a) i of
        None \<Rightarrow> None
      | Some iv \<Rightarrow> Some (intervalCallback iv now a))"

text \<open>A run of events from a state; \<open>None\<close> when one of them cannot happen.\<close>

fun run :: "event list \<Rightarrow> app \<Rightarrow> app option" where
  "run [] a = Some a"
| "run (e # es) a = (case fire e a of None \<Rightarrow> None | Some a' \<Rightarrow> run es a')"

text \<open>
  The callbacks of the interval \<open>i\<close> at the times \<open>ts\<close>, for as long as it is scheduled: once
  it is cleared its callback does not run again.
\<close>

fun ticks :: "nat \<Rightarrow> int list \<Rightarrow> app \<Rightarrow> app" where
  "ticks i [] a = a"
| "ticks i (t # ts) a = (case fire (Tick i t) a of None \<Rightarrow> a | Some a' \<Rightarrow> ticks i ts a')"

text \<open>
  Rendering. The state updates of one handler or callback are applied together and the
  component renders once after it. The render reads the state variables; with a plan of the
  type \<open>AnalysisResult\<close> the only expressions of it that can throw are on the GUIDANCE screen,
  which reads \<open>analysis.steps[currentStepIdx].materials\<close> (and then \<open>title\<close>, \<open>instruction\<close>,
  ...): a \<open>TypeError\<close> when there is no step at the index. \<open>render_error s\<close> is the error
  the render of \<open>s\<close> throws, if any.
\<close>

definition render_error :: "session \<Rightarrow> error option" where
  "render_error s =
     (if state s = GUIDANCE then
        (case analysis s of
           None \<Rightarrow> None
         | Some a \<Rightarrow> (case step_at a (currentStepIdx s) of None \<Rightarrow> Some TypeError | Some st \<Rightarrow> None))
      else None)"

text \<open>
  \<open>App\<close> is rendered without an error boundary: when its render throws, React unmounts it. An
  unmounted page shows nothing, so nothing can come from the user any more; calls, timeouts
  and intervals still settle and tick, and their state updates go nowhere.
\<close>

datatype page = Mounted app | Unmounted error

fun from_the_user :: "event \<Rightarrow> bool" where
  "from_the_user (AnalysisResolved r) = False"
| "from_the_user GuidanceTimeout = False"
| "from_the_user (VerifyResolved r) = False"
| "from_the_user (Tick i now) = False"
| "from_the_user e = True"

fun step :: "event \<Rightarrow> page \<Rightarrow> page option" where
  "step e (Mounted a) =
     (case fire e a of
        None \<Rightarrow> None
      | Some a' \<Rightarrow> (case render_error (ui a') of None \<Rightarrow> Some (Mounted a') | Some err \<Rightarrow> Some (Unmounted err)))"
| "step e (Unmounted err) = (if from_the_user e then None else Some (Unmounted err))"

fun play :: "event list \<Rightarrow> page \<Rightarrow> page option" where
  "play [] p = Some p"
| "play (e # es) p = (case step e p of None \<Rightarrow> None | Some p' \<Rightarrow> play es p')"

section \<open>Sample data\<close>

definition step1 :: GuidanceStep where
  "step1 = \<lparr>step_id = 1, title = ''Power off'', instruction = ''Unplug the board'',
     duration = None, materials = None, warnings = None, checkpoints = None,
     audioPrompt = ''Unplug the board now'', arOverlayType = Bolt\<rparr>"

definition plan_of :: "GuidanceStep list \<Rightarrow> AnalysisResult" where
  "plan_of xs = \<lparr>category = ''Loose wire'', confidence = 1, reasoning = ''Visible gap'',
     severity = MEDIUM, uncertainties = None, isSafeToProceed = True, steps = xs\<rparr>"

text \<open>From the home screen to the guidance of a plan, and on to the validation of its first step.\<close>

definition to_guidance :: "AnalysisResult \<Rightarrow> event list" where
  "to_guidance p = [SelectMode ROBOTICS, Snap ''wide'', Snap ''macro'', Analyze,
     AnalysisResolved (Inr p), StartGuidance, GuidanceTimeout]"

definition to_validation :: "AnalysisResult \<Rightarrow> event list" where
  "to_validation p = to_guidance p @ [SnapToVerify]"

definition loose_wire :: Feedback where
  "loose_wire = \<lparr>success = False, feedback = ''loose wire''\<rparr>"

definition looks_good :: Feedback where
  "looks_good = \<lparr>success = True, feedback = ''Looks good''\<rparr>"

text \<open>The state after the two captures of the setup.\<close>

definition captured :: app where
  "captured = initial\<lparr>ui := (ui initial)\<lparr>state := CAPTURE_COMPLETE, mode := ROBOTICS,
     wideImage := Some ''wide'', macroImage := Some ''macro''\<rparr>\<rparr>"

definition one_step :: AnalysisResult where
  "one_step = plan_of [step1]"

definition three_steps :: AnalysisResult where
  "three_steps = plan_of [step1, step1\<lparr>step_id := 2\<rparr>, step1\<lparr>step_id := 3\<rparr>]"

text \<open>A reply that is well-formed JSON of the requested schema and lists no step.\<close>

definition no_steps :: AnalysisResult where
  "no_steps = plan_of []"

text \<open>The state at the start of the guidance of a plan, and with a verdict on its first step.\<close>

definition guiding :: "AnalysisResult \<Rightarrow> app" where
  "guiding p = initial\<lparr>ui := (ui initial)\<lparr>state := GUIDANCE, mode := ROBOTICS,
     wideImage := Some ''wide'', macroImage := Some ''macro'', analysis := Some p\<rparr>\<rparr>"

definition validating :: "AnalysisResult \<Rightarrow> Feedback \<Rightarrow> app" where
  "validating p f = (guiding p)\<lparr>ui := (ui (guiding p))\<lparr>state := STEP_VALIDATION,
     verificationFeedback := Some f\<rparr>\<rparr>"

definition analyzing :: app where
  "analyzing = captured\<lparr>ui := (ui captured)\<lparr>state := ANALYZING, isBusy := True\<rparr>,
     analysisInFlight := 1\<rparr>"

text \<open>
  Stand-ins for \<open>JSON.parse\<close> in the examples: one that throws on every text, and one that
  knows a single text and its value.
\<close>

definition never_parses :: "string \<Rightarrow> 'v option" where
  "never_parses s = None"

definition only_parses :: "string \<Rightarrow> 'v \<Rightarrow> string \<Rightarrow> 'v option" where
  "only_parses t v s = (if s = t then Some v else None)"

definition no_steps_text :: string where
  "no_steps_text = ''{\"category\":\"Loose wire\",\"confidence\":1,\"reasoning\":\"Visible gap\",\"severity\":\"MEDIUM\",\"isSafeToProceed\":true,\"steps\":[]}''"

section \<open>Sample runs\<close>

lemmas handler_defs = startAssessment_def handleCapture_def handleCapture_settled_def
  triggerAnalysis_def triggerAnalysis_settled_def startGuidance_def startGuidance_timeout_def
  proceedNext_def retakeContext_def retakeDetail_def falsy_def step_at_def header_shown_def
  handleOverrideStart_def handleOverrideEnd_def intervalCallback_def clearInterval_def

lemmas sample_defs = step1_def plan_of_def to_guidance_def to_validation_def loose_wire_def
  looks_good_def captured_def initial_def
  one_step_def three_steps_def no_steps_def guiding_def validating_def analyzing_def

lemma captured_run: "run [SelectMode ROBOTICS, Snap ''wide'', Snap ''macro''] initial = Some captured"
  by (simp add: sample_defs handler_defs)

lemma guiding_run: "run (to_guidance p) initial = Some (guiding p)"
  by (simp add: sample_defs handler_defs)

lemma validating_run:
  assumes "steps p \<noteq> []"
  shows "run (to_validation p @ [Snap ''photo'', VerifyResolved (Inr f)]) initial
     = Some (validating p f)"
  using assms by (simp add: sample_defs handler_defs)

section \<open>Retake\<close>

text \<open>
  C9. On the CAPTURE_COMPLETE screen both Retake buttons are available. Retaking the context
  image clears \<open>wideImage\<close> and goes back to INITIAL_CAPTURE; retaking the detail image clears
  \<open>macroImage\<close> and goes back to INITIAL_CAPTURE. Nothing else changes: putting the cleared
  image and the phase back gives the state before the retake, so the other image is untouched.
\<close>

theorem retake_clears_only_its_slot:
  assumes "state (ui a) = CAPTURE_COMPLETE"
  shows "(\<exists>a'. fire RetakeContext a = Some a' \<and> state (ui a') = INITIAL_CAPTURE
            \<and> wideImage (ui a') = None \<and> macroImage (ui a') = macroImage (ui a)
            \<and> a'\<lparr>ui := (ui a')\<lparr>wideImage := wideImage (ui a), state := state (ui a)\<rparr>\<rparr> = a)
       \<and> (\<exists>a'. fire RetakeDetail a = Some a' \<and> state (ui a') = INITIAL_CAPTURE
            \<and> macroImage (ui a') = None \<and> wideImage (ui a') = wideImage (ui a)
            \<and> a'\<lparr>ui := (ui a')\<lparr>macroImage := macroImage (ui a), state := state (ui a)\<rparr>\<rparr> = a)"
  using assms by (simp add: retakeContext_def retakeDetail_def)

theorem retake_clears_only_its_slot_witness:
  "state (ui captured) = CAPTURE_COMPLETE
   \<and> wideImage (ui captured) = Some ''wide'' \<and> macroImage (ui captured) = Some ''macro''
   \<and> (\<exists>a'. fire RetakeContext captured = Some a' \<and> state (ui a') = INITIAL_CAPTURE
         \<and> wideImage (ui a') = None \<and> macroImage (ui a') = Some ''macro'')
   \<and> (\<exists>a'. fire RetakeDetail captured = Some a' \<and> state (ui a') = INITIAL_CAPTURE
         \<and> macroImage (ui a') = None \<and> wideImage (ui a') = Some ''wide'')"
proof -
  have c: "state (ui captured) = CAPTURE_COMPLETE"
    by (simp add: captured_def initial_def)
  have w: "wideImage (ui captured) = Some ''wide''" and m: "macroImage (ui captured) = Some ''macro''"
    by (simp_all add: captured_def initial_def)
  from retake_clears_only_its_slot [OF c] w m c show ?thesis
    by auto
qed

section \<open>The advance routine\<close>

text \<open>
  Confirm and Proceed before the last step: the index goes up by one, the verdict is cleared
  and the guidance of the next step starts.
\<close>

lemma confirm_before_last_step:
  assumes "state (ui a) = STEP_VALIDATION" and "verificationFeedback (ui a) = Some f"
    and "analysis (ui a) = Some p" and "currentStepIdx (ui a) < int (length (steps p)) - 1"
  shows "fire ConfirmProceed a =
    Some (a\<lparr>ui := (ui a)\<lparr>currentStepIdx := currentStepIdx (ui a) + 1, verificationFeedback := None,
                 state := GUIDANCE\<rparr>\<rparr>)"
  using assms by (simp add: proceedNext_def Let_def)

text \<open>
  Confirm and Proceed on the last step (and on any index past it): the session is completed.
  The \<open>else\<close> branch of \<open>proceedNext\<close> sets nothing but the phase.
\<close>

lemma confirm_on_last_step:
  assumes "state (ui a) = STEP_VALIDATION" and "verificationFeedback (ui a) = Some f"
    and "analysis (ui a) = Some p" and "int (length (steps p)) - 1 \<le> currentStepIdx (ui a)"
  shows "fire ConfirmProceed a = Some (a\<lparr>ui := (ui a)\<lparr>state := COMPLETED\<rparr>\<rparr>)"
  using assms by (simp add: proceedNext_def Let_def)

text \<open>
  C1, at the last step. A plan of one step, its step validated with the verdict
  \<open>looks_good\<close>: Confirm and Proceed completes the session and the verdict is still pending
  afterwards, where the claim has it cleared.
\<close>

theorem confirm_on_last_step_keeps_feedback:
  "\<exists>a. run (to_validation one_step @ [Snap ''photo'', VerifyResolved (Inr looks_good), ConfirmProceed])
          initial = Some a
     \<and> state (ui a) = COMPLETED \<and> verificationFeedback (ui a) = Some looks_good"
  by (simp add: sample_defs handler_defs)

text \<open>
  The verdict that was left behind outlives the session: nothing between the home screen and
  the next validation resets it, so the next session opens its first validation with the old
  verdict on display and no verification under way.
\<close>

lemma stale_feedback_in_next_session:
  "\<exists>a. run (to_validation one_step @ [Snap ''photo'', VerifyResolved (Inr looks_good), ConfirmProceed]
            @ [GoHome] @ to_validation three_steps) initial = Some a
     \<and> state (ui a) = STEP_VALIDATION \<and> verificationFeedback (ui a) = Some looks_good
     \<and> verifyInFlight a = 0 \<and> analysis (ui a) = Some three_steps"
  by (simp add: sample_defs handler_defs)

text \<open>
  C10. In STEP_VALIDATION with a verdict pending, Confirm and Proceed is available whatever the
  verdict says, and the phase and the step index it leads to (and the errors it raises) are the
  same for any two verdicts, in particular for a success and a failure.
\<close>

theorem confirm_ignores_the_verdict:
  assumes "state (ui a) = STEP_VALIDATION"
  shows "\<exists>a1 a2. fire ConfirmProceed (a\<lparr>ui := (ui a)\<lparr>verificationFeedback := Some f1\<rparr>\<rparr>) = Some a1
     \<and> fire ConfirmProceed (a\<lparr>ui := (ui a)\<lparr>verificationFeedback := Some f2\<rparr>\<rparr>) = Some a2
     \<and> state (ui a1) = state (ui a2) \<and> currentStepIdx (ui a1) = currentStepIdx (ui a2)
     \<and> uncaught a1 = uncaught a2"
  using assms by (auto simp add: proceedNext_def Let_def split: option.splits)

theorem confirm_ignores_the_verdict_witness:
  "state (ui (validating three_steps looks_good)) = STEP_VALIDATION
   \<and> (\<exists>a1 a2. fire ConfirmProceed (validating three_steps looks_good) = Some a1
        \<and> fire ConfirmProceed (validating three_steps loose_wire) = Some a2
        \<and> state (ui a1) = GUIDANCE \<and> state (ui a2) = GUIDANCE
        \<and> currentStepIdx (ui a1) = 1 \<and> currentStepIdx (ui a2) = 1)"
proof -
  let ?a = "validating three_steps looks_good"
  have v: "state (ui ?a) = STEP_VALIDATION"
    by (simp add: sample_defs)
  have l: "?a\<lparr>ui := (ui ?a)\<lparr>verificationFeedback := Some looks_good\<rparr>\<rparr> = validating three_steps looks_good"
    and w: "?a\<lparr>ui := (ui ?a)\<lparr>verificationFeedback := Some loose_wire\<rparr>\<rparr> = validating three_steps loose_wire"
    by (simp_all add: validating_def)
  from confirm_ignores_the_verdict [OF v, of looks_good loose_wire]
  obtain a1 a2 where 1: "fire ConfirmProceed (validating three_steps looks_good) = Some a1"
    and 2: "fire ConfirmProceed (validating three_steps loose_wire) = Some a2"
    and 3: "state (ui a1) = state (ui a2)"
    and 4: "currentStepIdx (ui a1) = currentStepIdx (ui a2)"
    unfolding l w by blast
  have g: "\<exists>b. fire ConfirmProceed (validating three_steps looks_good) = Some b
      \<and> state (ui b) = GUIDANCE \<and> currentStepIdx (ui b) = 1"
    by (simp add: sample_defs handler_defs)
  with 1 have 5: "state (ui a1) = GUIDANCE" and 6: "currentStepIdx (ui a1) = 1"
    by auto
  from 1 2 3 4 5 6 v show ?thesis
    by simp
qed

section \<open>The override hold\<close>

lemma progress_full_iff: "(100::rat) \<le> min ((of_int e / 1500) * 100) 100 \<longleftrightarrow> 1500 \<le> e"
proof -
  have "(100::rat) \<le> (of_int e / 1500) * 100 \<longleftrightarrow> (1500::rat) \<le> of_int e"
    by (simp add: field_simps)
  also have "\<dots> \<longleftrightarrow> 1500 \<le> e"
    by (metis of_int_le_iff of_int_numeral)
  finally show ?thesis by simp
qed

lemma progress_early:
  assumes "e < 1500"
  shows "(of_int e / 1500) * 100 < (100::rat)"
proof -
  have "of_int e < (1500::rat)"
    using assms by (metis of_int_less_iff of_int_numeral)
  then show ?thesis by (simp add: field_simps)
qed

text \<open>A tick before 1500 ms have passed writes the progress and nothing else.\<close>

lemma tick_early:
  assumes "map_of (intervals b) i = Some iv" and "t - startTime iv < 1500"
  shows "fire (Tick i t) b =
    Some (b\<lparr>ui := (ui b)\<lparr>overrideProgress := (of_int (t - startTime iv) / 1500) * 100\<rparr>\<rparr>)"
proof -
  have lt: "(of_int (t - startTime iv) / 1500) * 100 < (100::rat)"
    by (rule progress_early [OF assms(2)])
  then have m: "min ((of_int (t - startTime iv) / 1500) * 100) (100::rat)
      = (of_int (t - startTime iv) / 1500) * 100"
    by (simp only: min_def) simp
  have n: "\<not> (100::rat) \<le> (of_int (t - startTime iv) / 1500) * 100"
    using lt by (simp only: not_le)
  show ?thesis using assms(1) n
    by (simp only: fire.simps intervalCallback_def Let_def m) simp
qed

lemma map_of_clear: "map_of (intervals (clearInterval i a)) i = None"
  by (simp add: clearInterval_def map_of_eq_None_iff image_iff split_def)

text \<open>
  A tick at 1500 ms or later, of the interval the ref points to: the interval is cleared and
  \<open>proceedNext\<close> runs once, in the render of the pointer-down.
\<close>

lemma tick_full:
  assumes "map_of (intervals b) i = Some iv" and "1500 \<le> t - startTime iv"
    and "progressInterval b = Some i" and "analysis (render iv) = Some p"
  shows "\<exists>b'. fire (Tick i t) b = Some b' \<and> map_of (intervals b') i = None
     \<and> uncaught b' = uncaught b
     \<and> (if currentStepIdx (render iv) < int (length (steps p)) - 1
         then ui b' = (ui b)\<lparr>currentStepIdx := currentStepIdx (render iv) + 1, verificationFeedback := None,
                 state := GUIDANCE, overrideHeld := False, overrideProgress := 0\<rparr>
         else ui b' = (ui b)\<lparr>state := COMPLETED, overrideHeld := False, overrideProgress := 0\<rparr>)"
proof -
  have full: "(100::rat) \<le> min ((of_int (t - startTime iv) / 1500) * 100) 100"
    using assms(2) by (simp only: progress_full_iff)
  have m: "map_of (filter (\<lambda>(j, iv). j \<noteq> i) (intervals b)) i = None"
    using map_of_clear [of i b] by (simp add: clearInterval_def)
  show ?thesis using assms(1,3,4) full m
    by (simp add: intervalCallback_def Let_def proceedNext_def clearInterval_def)
qed

text \<open>
  A hold whose interval is the one the ref points to, started in the current render: as soon
  as one tick comes at 1500 ms or later, the phase and the index are those \<open>proceedNext\<close>
  computes, whatever ticks came before and whatever times are asked for afterwards.
\<close>

lemma ticks_fresh_hold:
  assumes "map_of (intervals b) i = Some iv" and "progressInterval b = Some i"
    and "analysis (render iv) = Some p"
    and "currentStepIdx (ui b) = currentStepIdx (render iv)"
    and "\<exists>t\<in>set ts. 1500 \<le> t - startTime iv"
  shows "state (ui (ticks i ts b)) =
           (if currentStepIdx (render iv) < int (length (steps p)) - 1 then GUIDANCE else COMPLETED)
       \<and> currentStepIdx (ui (ticks i ts b)) =
           (if currentStepIdx (render iv) < int (length (steps p)) - 1
            then currentStepIdx (render iv) + 1 else currentStepIdx (render iv))
       \<and> uncaught (ticks i ts b) = uncaught b"
  using assms
proof (induction ts arbitrary: b)
  case Nil
  then show ?case by simp
next
  case (Cons t ts)
  show ?case
  proof (cases "1500 \<le> t - startTime iv")
    case True
    from tick_full [OF Cons.prems(1) True Cons.prems(2) Cons.prems(3)]
    obtain b' where f: "fire (Tick i t) b = Some b'" and gone: "map_of (intervals b') i = None"
      and u: "uncaught b' = uncaught b"
      and r: "if currentStepIdx (render iv) < int (length (steps p)) - 1
         then ui b' = (ui b)\<lparr>currentStepIdx := currentStepIdx (render iv) + 1, verificationFeedback := None,
                 state := GUIDANCE, overrideHeld := False, overrideProgress := 0\<rparr>
         else ui b' = (ui b)\<lparr>state := COMPLETED, overrideHeld := False, overrideProgress := 0\<rparr>"
      by blast
    have stop: "ticks i ts b' = b'"
      using gone by (cases ts) simp_all
    show ?thesis using f stop u r Cons.prems(4)
      by (simp split: if_splits)
  next
    case False
    then have early: "t - startTime iv < 1500" by simp
    let ?b' = "b\<lparr>ui := (ui b)\<lparr>overrideProgress := (of_int (t - startTime iv) / 1500) * 100\<rparr>\<rparr>"
    have f: "fire (Tick i t) b = Some ?b'"
      by (rule tick_early [OF Cons.prems(1) early])
    have later: "\<exists>t\<in>set ts. 1500 \<le> t - startTime iv"
      using Cons.prems(5) False by auto
    have "state (ui (ticks i ts ?b')) =
           (if currentStepIdx (render iv) < int (length (steps p)) - 1 then GUIDANCE else COMPLETED)
       \<and> currentStepIdx (ui (ticks i ts ?b')) =
           (if currentStepIdx (render iv) < int (length (steps p)) - 1
            then currentStepIdx (render iv) + 1 else currentStepIdx (render iv))
       \<and> uncaught (ticks i ts ?b') = uncaught ?b'"
      using Cons.prems(1,2,3,4) later by (intro Cons.IH) simp_all
    then show ?thesis using f by simp
  qed
qed

text \<open>
  C2. Take any state with a plan installed. Press the override button at \<open>t0\<close> and let its
  interval tick at the times \<open>ts\<close>, one of them 1500 ms or more after \<open>t0\<close>; or be in
  STEP_VALIDATION of the same plan and step with a verdict \<open>f\<close> pending and press Confirm and
  Proceed. Both paths end in the same phase with the same step index, and raise no error.
\<close>

theorem override_hold_advances_like_confirm:
  assumes "analysis (ui a) = Some p" and "\<exists>t\<in>set ts. 1500 \<le> t - t0"
  shows "\<exists>a1 a2. ticks (Suc (lastTimerId a)) ts (handleOverrideStart t0 a) = a1
      \<and> fire ConfirmProceed
           (a\<lparr>ui := (ui a)\<lparr>state := STEP_VALIDATION, verificationFeedback := Some f\<rparr>\<rparr>) = Some a2
      \<and> state (ui a1) = state (ui a2)
      \<and> currentStepIdx (ui a1) = currentStepIdx (ui a2)
      \<and> uncaught a1 = uncaught a \<and> uncaught a2 = uncaught a"
proof -
  let ?i = "Suc (lastTimerId a)"
  let ?b = "handleOverrideStart t0 a"
  let ?iv = "\<lparr>startTime = t0, render = ui a\<rparr>"
  have 1: "map_of (intervals ?b) ?i = Some ?iv"
    by (simp add: handleOverrideStart_def Let_def)
  have 2: "progressInterval ?b = Some ?i"
    by (simp add: handleOverrideStart_def Let_def)
  have 3: "analysis (render ?iv) = Some p"
    using assms(1) by simp
  have 4: "currentStepIdx (ui ?b) = currentStepIdx (render ?iv)"
    by (simp add: handleOverrideStart_def Let_def)
  have 5: "\<exists>t\<in>set ts. 1500 \<le> t - startTime ?iv"
    using assms(2) by simp
  have 6: "uncaught ?b = uncaught a"
    by (simp add: handleOverrideStart_def Let_def)
  from ticks_fresh_hold [OF 1 2 3 4 5] 6 show ?thesis
    using assms(1) by (simp add: proceedNext_def Let_def)
qed

theorem override_hold_advances_like_confirm_witness:
  "analysis (ui (guiding three_steps)) = Some three_steps
   \<and> (1500::int) \<le> 1504 - 0
   \<and> state (ui (ticks (Suc 0) [16, 1488, 1504, 1520] (handleOverrideStart 0 (guiding three_steps)))) = GUIDANCE
   \<and> currentStepIdx (ui (ticks (Suc 0) [16, 1488, 1504, 1520] (handleOverrideStart 0 (guiding three_steps)))) = 1
   \<and> (\<exists>a2. fire ConfirmProceed (validating three_steps loose_wire) = Some a2
         \<and> state (ui a2) = GUIDANCE \<and> currentStepIdx (ui a2) = 1)"
proof -
  let ?a = "guiding three_steps"
  let ?h = "ticks (Suc 0) [16, 1488, 1504, 1520] (handleOverrideStart 0 ?a)"
  have p: "analysis (ui ?a) = Some three_steps"
    by (simp add: sample_defs)
  have t: "\<exists>t\<in>set [16, 1488, 1504, 1520 :: int]. 1500 \<le> t - 0"
    by simp
  have i: "Suc (lastTimerId ?a) = Suc 0"
    by (simp add: sample_defs)
  have v: "?a\<lparr>ui := (ui ?a)\<lparr>state := STEP_VALIDATION, verificationFeedback := Some loose_wire\<rparr>\<rparr>
      = validating three_steps loose_wire"
    by (simp add: validating_def)
  from override_hold_advances_like_confirm [OF p t, of loose_wire]
  obtain a2 where 1: "fire ConfirmProceed (validating three_steps loose_wire) = Some a2"
    and 2: "state (ui ?h) = state (ui a2)"
    and 3: "currentStepIdx (ui ?h) = currentStepIdx (ui a2)"
    unfolding i v by blast
  have c: "\<exists>b. fire ConfirmProceed (validating three_steps loose_wire) = Some b
         \<and> state (ui b) = GUIDANCE \<and> currentStepIdx (ui b) = 1"
    by (simp add: sample_defs handler_defs)
  with 1 have 4: "state (ui a2) = GUIDANCE" and 5: "currentStepIdx (ui a2) = 1"
    by auto
  from 1 2 3 4 5 p show ?thesis
    by simp
qed

section \<open>The analysis call\<close>

lemma analyzing_run: "run [Analyze] captured = Some analyzing"
  by (simp add: sample_defs handler_defs)

text \<open>
  C7, as stated, fails. A reply whose text is well-formed JSON with every required key and an
  empty list of steps is accepted and returned as the plan: the plan has no step.
\<close>

theorem analyzeSituation_accepts_a_plan_without_steps:
  "analyzeSituation (only_parses no_steps_text no_steps) (Inr \<lparr>response_text = Some no_steps_text\<rparr>)
     = Inr no_steps
   \<and> steps no_steps = []"
  by (simp add: analyzeSituation_def only_parses_def or_empty_object_def no_steps_text_def
      no_steps_def plan_of_def)

text \<open>
  C7, amended. \<open>analyzeSituation\<close> checks nothing about the shape of the reply. It returns a
  plan exactly when the call was fulfilled and the text of the reply (\<open>{}\<close> for an absent or
  empty text) parses, and the plan is the parsed value as it is. It fails exactly when the
  call was rejected or the text does not parse.
\<close>

theorem analyzeSituation_accepts_what_parses:
  "(analyzeSituation JSON_parse generated = Inr v
      \<longleftrightarrow> (\<exists>response. generated = Inr response
             \<and> JSON_parse (or_empty_object (response_text response)) = Some v))
   \<and> ((\<exists>e. analyzeSituation JSON_parse generated = Inl e)
      \<longleftrightarrow> ((\<exists>e. generated = Inl e)
           \<or> (\<exists>response. generated = Inr response
                 \<and> JSON_parse (or_empty_object (response_text response)) = None)))"
  by (auto simp add: analyzeSituation_def split: sum.splits option.splits)

text \<open>
  Replies that are not of the shape the cast claims are accepted in the same way: an absent
  text is read as \<open>{}\<close> and the empty object is returned as the plan, and so is \<open>null\<close>.
\<close>

lemma analyzeSituation_accepts_any_json:
  "analyzeSituation (only_parses ''{}'' (JObject [])) (Inr \<lparr>response_text = None\<rparr>) = Inr (JObject [])
   \<and> analyzeSituation (only_parses ''null'' JNull) (Inr \<lparr>response_text = Some ''null''\<rparr>) = Inr JNull"
  by (simp add: analyzeSituation_def only_parses_def or_empty_object_def)

text \<open>
  C3, as stated, fails. The analysis call is rejected after both images were captured: the
  session is back at HOME and not busy, and both images are still there.
\<close>

theorem failed_analysis_keeps_the_images:
  "\<exists>a. run [SelectMode ROBOTICS, Snap ''wide'', Snap ''macro'', Analyze,
            AnalysisResolved (analyzeSituation never_parses (Inl (Error ''Failed to fetch'')))]
          initial = Some a
     \<and> state (ui a) = HOME \<and> isBusy (ui a) = False
     \<and> wideImage (ui a) = Some ''wide'' \<and> macroImage (ui a) = Some ''macro''"
  by (simp add: sample_defs handler_defs analyzeSituation_def)

text \<open>
  C3, amended. When \<open>analyzeSituation\<close> fails (the call was rejected or the text of the reply
  does not parse) while an analysis is pending, the session goes to HOME with busy cleared and
  the call is no longer pending; the plan of the session is the one it had, and so is
  everything else, the two images included. The images are cleared by the next choice of a
  mode on the home screen.
\<close>

theorem failed_analysis_returns_home:
  assumes "analyzeSituation JSON_parse generated = Inl e" and "0 < analysisInFlight a"
  shows "\<exists>a'. fire (AnalysisResolved (analyzeSituation JSON_parse generated)) a = Some a'
     \<and> state (ui a') = HOME \<and> isBusy (ui a') = False
     \<and> analysis (ui a') = analysis (ui a)
     \<and> wideImage (ui a') = wideImage (ui a) \<and> macroImage (ui a') = macroImage (ui a)
     \<and> analysisInFlight a' = analysisInFlight a - 1
     \<and> a'\<lparr>ui := (ui a')\<lparr>state := state (ui a), isBusy := isBusy (ui a)\<rparr>,
            analysisInFlight := analysisInFlight a\<rparr> = a
     \<and> (\<exists>a''. fire (SelectMode m) a' = Some a''
            \<and> wideImage (ui a'') = None \<and> macroImage (ui a'') = None)"
  using assms by (simp add: triggerAnalysis_settled_def startAssessment_def)

theorem failed_analysis_returns_home_witness:
  "analyzeSituation never_parses (Inr \<lparr>response_text = Some ''not json''\<rparr>)
     = (Inl (Error ''Failed to parse AI response'') :: error + AnalysisResult)
   \<and> 0 < analysisInFlight analyzing
   \<and> (\<exists>a'. fire (AnalysisResolved
                (analyzeSituation never_parses (Inr \<lparr>response_text = Some ''not json''\<rparr>)))
             analyzing = Some a'
     \<and> state (ui a') = HOME \<and> isBusy (ui a') = False \<and> analysis (ui a') = None
     \<and> wideImage (ui a') = Some ''wide'' \<and> macroImage (ui a') = Some ''macro''
     \<and> (\<exists>a''. fire (SelectMode FIRST_AID) a' = Some a''
            \<and> wideImage (ui a'') = None \<and> macroImage (ui a'') = None))"
proof -
  have f: "analyzeSituation never_parses (Inr \<lparr>response_text = Some ''not json''\<rparr>)
      = (Inl (Error ''Failed to parse AI response'') :: error + AnalysisResult)"
    by (simp add: analyzeSituation_def never_parses_def)
  have n: "0 < analysisInFlight analyzing"
    by (simp add: analyzing_def)
  have i: "analysis (ui analyzing) = None" "wideImage (ui analyzing) = Some ''wide''"
    "macroImage (ui analyzing) = Some ''macro''"
    by (simp_all add: sample_defs)
  from failed_analysis_returns_home [OF f n, of FIRST_AID] f n i show ?thesis
    by auto
qed

section \<open>The verification call\<close>

text \<open>A fulfilled call never makes \<open>verifyStep\<close> fail; a text that does not parse gives the fallback.\<close>

lemma verifyStep_settles_like_the_call:
  "(\<exists>f. verifyStep JSON_parse generated = Inr f) \<longleftrightarrow> (\<exists>response. generated = Inr response)"
  by (auto simp add: verifyStep_def split: sum.splits option.splits)

lemma verifyStep_falls_back_when_parsing_fails:
  assumes "JSON_parse (or_empty_object (response_text response)) = None"
  shows "verifyStep JSON_parse (Inr response)
    = Inr \<lparr>success = True, feedback = ''Unable to verify, but proceeding safely.''\<rparr>"
  using assms by (simp add: verifyStep_def)

text \<open>Busy is set when a call starts and cleared when it settles, the rejected verification apart.\<close>

lemma analyze_sets_busy:
  assumes "fire Analyze a = Some a'"
  shows "isBusy (ui a') \<and> state (ui a') = ANALYZING \<and> analysisInFlight a' = Suc (analysisInFlight a)"
  using assms by (auto simp add: triggerAnalysis_def split: if_splits)

lemma analysis_settled_clears_busy:
  assumes "fire (AnalysisResolved r) a = Some a'"
  shows "\<not> isBusy (ui a')"
  using assms by (auto simp add: triggerAnalysis_settled_def split: if_splits sum.splits)

lemma verification_fulfilled_clears_busy:
  assumes "fire (VerifyResolved (Inr f)) a = Some a'"
  shows "\<not> isBusy (ui a') \<and> verificationFeedback (ui a') = Some f \<and> state (ui a') = state (ui a)"
  using assms by (auto simp add: handleCapture_settled_def split: if_splits)

lemma shutter_is_disabled_while_busy:
  assumes "isBusy (ui a)"
  shows "fire (Snap data) a = None"
  using assms by simp

text \<open>
  Whatever happens, in whatever order, at most one call is pending and busy is set while one
  is: the shutter is disabled while busy, and the Analyze button only shows on a screen that
  is never busy.
\<close>

lemma fire_keeps_one_call:
  assumes "fire e a = Some a'"
    and "analysisInFlight a + verifyInFlight a \<le> 1"
    and "0 < analysisInFlight a + verifyInFlight a \<longrightarrow> isBusy (ui a)"
    and "state (ui a) = CAPTURE_COMPLETE \<longrightarrow> \<not> isBusy (ui a)"
  shows "analysisInFlight a' + verifyInFlight a' \<le> 1
     \<and> (0 < analysisInFlight a' + verifyInFlight a' \<longrightarrow> isBusy (ui a'))
     \<and> (state (ui a') = CAPTURE_COMPLETE \<longrightarrow> \<not> isBusy (ui a'))"
proof (cases e)
  case (Tick k now)
  with assms(1) obtain kv where a': "a' = intervalCallback kv now a"
    by (auto split: option.splits)
  show ?thesis using assms(2,3,4) unfolding a'
    by (auto simp add: intervalCallback_def proceedNext_def clearInterval_def Let_def
        split: option.splits sum.splits)
qed (use assms in \<open>auto simp add: handler_defs Let_def
      split: if_splits option.splits sum.splits prod.splits completion.splits\<close>)

lemma at_most_one_call_pending:
  assumes "run es initial = Some a"
  shows "analysisInFlight a + verifyInFlight a \<le> 1
     \<and> (0 < analysisInFlight a + verifyInFlight a \<longrightarrow> isBusy (ui a))"
proof -
  have "run es b = Some a \<Longrightarrow> analysisInFlight b + verifyInFlight b \<le> 1
      \<Longrightarrow> (0 < analysisInFlight b + verifyInFlight b \<longrightarrow> isBusy (ui b))
      \<Longrightarrow> (state (ui b) = CAPTURE_COMPLETE \<longrightarrow> \<not> isBusy (ui b))
      \<Longrightarrow> analysisInFlight a + verifyInFlight a \<le> 1
        \<and> (0 < analysisInFlight a + verifyInFlight a \<longrightarrow> isBusy (ui a))" for b
  proof (induction es arbitrary: b)
    case Nil
    then show ?case by simp
  next
    case (Cons e es)
    from Cons.prems(1) obtain c where f: "fire e b = Some c" and r: "run es c = Some a"
      by (auto split: option.splits)
    from fire_keeps_one_call [OF f Cons.prems(2,3,4)]
    have c1: "analysisInFlight c + verifyInFlight c \<le> 1"
      and c2: "0 < analysisInFlight c + verifyInFlight c \<longrightarrow> isBusy (ui c)"
      and c3: "state (ui c) = CAPTURE_COMPLETE \<longrightarrow> \<not> isBusy (ui c)"
      by simp_all
    show ?case
      by (rule Cons.IH [OF r c1 c2 c3])
  qed
  from this [OF assms] show ?thesis by (simp add: initial_def)
qed

text \<open>
  C4, at a rejected call. The first step of a plan is being validated and the call of the
  oracle is rejected (the network is down). \<open>verifyStep\<close> is rejected with that error, where
  the claim has it return the fallback verdict; \<open>handleCapture\<close> does not catch it, and no
  verdict is installed.
\<close>

theorem verifyStep_passes_a_rejection_on:
  "\<exists>a. run (to_validation one_step @ [Snap ''photo'',
            VerifyResolved (verifyStep never_parses (Inl (Error ''Failed to fetch'')))]) initial = Some a
     \<and> verifyStep never_parses (Inl (Error ''Failed to fetch'')) = Inl (Error ''Failed to fetch'')
     \<and> uncaught a = [Error ''Failed to fetch'']
     \<and> verificationFeedback (ui a) = None \<and> state (ui a) = STEP_VALIDATION"
  by (simp add: sample_defs handler_defs verifyStep_def)

text \<open>
  C5, at the same rejected call. After the call has settled nothing is pending, and busy is
  still set, where the claim has it cleared; the shutter stays disabled.
\<close>

theorem busy_stays_after_a_rejected_verification:
  "\<exists>a. run (to_validation one_step @ [Snap ''photo'',
            VerifyResolved (verifyStep never_parses (Inl (Error ''Failed to fetch'')))]) initial = Some a
     \<and> verifyInFlight a = 0 \<and> analysisInFlight a = 0 \<and> isBusy (ui a) = True
     \<and> fire (Snap ''again'') a = None"
  by (simp add: sample_defs handler_defs verifyStep_def)

section \<open>The step index\<close>

text \<open>
  On the GUIDANCE screen with a plan installed, the render goes through exactly when the step
  index is within the plan.
\<close>

lemma guidance_renders_iff_index_within_plan:
  assumes "state s = GUIDANCE" and "analysis s = Some p"
  shows "render_error s = None \<longleftrightarrow> 0 \<le> currentStepIdx s \<and> currentStepIdx s < int (length (steps p))"
  using assms by (simp add: render_error_def step_at_def)

text \<open>
  \<open>proceedNext\<close> keeps the index within the plan of its render: from an index that is not
  negative it only goes on to GUIDANCE with an index below the number of steps.
\<close>

lemma proceedNext_stays_within_its_plan:
  assumes "analysis r = Some p" and "0 \<le> currentStepIdx r"
    and "proceedNext r s = Inr s'" and "state s' = GUIDANCE"
  shows "0 \<le> currentStepIdx s' \<and> currentStepIdx s' < int (length (steps p))"
  using assms by (auto simp add: proceedNext_def Let_def split: if_splits)

text \<open>
  The timeout of \<open>startGuidance\<close> enters GUIDANCE at index 0 whatever the plan is; it checks
  nothing about the plan.
\<close>

lemma timeout_enters_guidance_at_zero:
  "state (startGuidance_timeout s) = GUIDANCE \<and> currentStepIdx (startGuidance_timeout s) = 0
   \<and> analysis (startGuidance_timeout s) = analysis s"
  by (simp add: startGuidance_timeout_def)

text \<open>
  C6, at a plan without steps. The analysis returns a plan with an empty list of steps and
  the user starts the guidance. When the timeout has run the phase is GUIDANCE with a plan
  installed, and the step index 0 is not below the number of steps 0, where the claim has it
  below. The render of that state throws, and the page is unmounted.
\<close>

theorem guidance_of_a_plan_without_steps_unmounts:
  "\<exists>a. run (to_guidance no_steps) initial = Some a
     \<and> state (ui a) = GUIDANCE \<and> analysis (ui a) = Some no_steps
     \<and> currentStepIdx (ui a) = 0 \<and> int (length (steps no_steps)) = 0
     \<and> render_error (ui a) = Some TypeError
     \<and> play (to_guidance no_steps) (Mounted initial) = Some (Unmounted TypeError)"
  by (simp add: sample_defs handler_defs render_error_def)

text \<open>
  The index also leaves the plan when a hold is interrupted. The callback of an interval
  advances from the render of its pointer-down. If the user leaves the guidance during the
  hold (the close button, by keyboard or a second pointer) and a shorter plan is installed
  before the interval completes, the completion sets the index of the old plan's next step,
  and the render throws.
\<close>

lemma interrupted_hold_advances_the_old_plan:
  "\<exists>a. run (to_guidance three_steps @ [PointerDown 0, GoHome] @ to_guidance one_step @ [Tick 1 1504])
          initial = Some a
     \<and> state (ui a) = GUIDANCE \<and> analysis (ui a) = Some one_step \<and> currentStepIdx (ui a) = 1
     \<and> render_error (ui a) = Some TypeError"
  by (simp add: sample_defs handler_defs render_error_def)

section \<open>Runs that stay mounted\<close>

text \<open>A run that is played with its renders and stays mounted is a run of the handlers.\<close>

lemma play_mounted_is_run:
  assumes "play es (Mounted a) = Some (Mounted a')"
  shows "run es a = Some a'"
  using assms
proof (induction es arbitrary: a)
  case Nil
  then show ?case by simp
next
  case (Cons e es)
  from Cons.prems obtain p where s: "step e (Mounted a) = Some p" and r: "play es p = Some (Mounted a')"
    by (auto split: option.splits)
  have stays: "play es (Unmounted err) \<noteq> Some (Mounted a')" for err
    by (induction es) (auto split: option.splits)
  from r stays obtain b where p: "p = Mounted b"
    by (cases p) auto
  from s p have f: "fire e a = Some b"
    by (auto split: option.splits)
  from Cons.IH r p have "run es b = Some a'" by simp
  with f show ?case by simp
qed

text \<open>
  Every render goes through along the runs of the sections above: the confirmation on the
  last step and the next session after it, the rejected verification, and the two presses of
  the override button with the ticks of the orphaned interval.
\<close>

lemma sample_runs_stay_mounted:
  "(\<exists>a. play (to_validation one_step @ [Snap ''photo'', VerifyResolved (Inr looks_good), ConfirmProceed]
            @ [GoHome] @ to_validation three_steps) (Mounted initial) = Some (Mounted a))
   \<and> (\<exists>a. play (to_validation one_step @ [Snap ''photo'',
            VerifyResolved (verifyStep never_parses (Inl (Error ''Failed to fetch'')))])
            (Mounted initial) = Some (Mounted a))
   \<and> (\<exists>a. play (to_guidance three_steps @ [PointerDown 0, PointerDown 100, PointerUp, Tick 1 1504,
            SnapToVerify, Tick 1 1520]) (Mounted initial) = Some (Mounted a))"
  by (simp add: sample_defs handler_defs render_error_def verifyStep_def)

section \<open>Release, progress and orphaned intervals\<close>

text \<open>
  Releasing the button (or leaving it) resets the progress to 0 and changes nothing else of
  the session, of the pending calls or of the errors; the interval the ref points to is no
  longer scheduled.
\<close>

lemma release_changes_nothing_else:
  "overrideProgress (ui (handleOverrideEnd a)) = 0
   \<and> overrideHeld (ui (handleOverrideEnd a)) = False
   \<and> (ui (handleOverrideEnd a))\<lparr>overrideHeld := overrideHeld (ui a),
        overrideProgress := overrideProgress (ui a)\<rparr> = ui a
   \<and> analysisInFlight (handleOverrideEnd a) = analysisInFlight a
   \<and> verifyInFlight (handleOverrideEnd a) = verifyInFlight a
   \<and> guidanceTimeouts (handleOverrideEnd a) = guidanceTimeouts a
   \<and> uncaught (handleOverrideEnd a) = uncaught a"
  by (simp add: handleOverrideEnd_def clearInterval_def Let_def split: option.splits)

lemma release_unschedules:
  assumes "progressInterval a = Some i"
  shows "map_of (intervals (handleOverrideEnd a)) i = None"
  using assms map_of_clear [of i a] by (simp add: handleOverrideEnd_def Let_def clearInterval_def)

text \<open>
  With a clock that does not go back, two successive ticks before 1500 ms write progress
  values that start at 0 or above, do not decrease and stay below 100, and they change neither
  the phase, nor the step index, nor the verdict.
\<close>

lemma progress_is_monotone:
  assumes "map_of (intervals b) i = Some iv"
    and "startTime iv \<le> t" and "t \<le> t'" and "t' - startTime iv < 1500"
  shows "\<exists>b1 b2. fire (Tick i t) b = Some b1 \<and> fire (Tick i t') b1 = Some b2
     \<and> 0 \<le> overrideProgress (ui b1)
     \<and> overrideProgress (ui b1) \<le> overrideProgress (ui b2)
     \<and> overrideProgress (ui b2) < 100
     \<and> state (ui b2) = state (ui b) \<and> currentStepIdx (ui b2) = currentStepIdx (ui b)
     \<and> verificationFeedback (ui b2) = verificationFeedback (ui b)"
proof -
  let ?p = "\<lambda>x. (of_int (x - startTime iv) / 1500) * (100::rat)"
  let ?b1 = "b\<lparr>ui := (ui b)\<lparr>overrideProgress := ?p t\<rparr>\<rparr>"
  have e1: "t - startTime iv < 1500" using assms(3,4) by simp
  have f1: "fire (Tick i t) b = Some ?b1"
    by (rule tick_early [OF assms(1) e1])
  have m1: "map_of (intervals ?b1) i = Some iv" using assms(1) by simp
  have f2: "fire (Tick i t') ?b1 = Some (?b1\<lparr>ui := (ui ?b1)\<lparr>overrideProgress := ?p t'\<rparr>\<rparr>)"
    by (rule tick_early [OF m1 assms(4)])
  have le: "(of_int (t - startTime iv) :: rat) \<le> of_int (t' - startTime iv)"
    using assms(3) by simp
  have nn: "(0::rat) \<le> of_int (t - startTime iv)"
    using assms(2) by simp
  have "?p t \<le> ?p t'" using le by (simp add: divide_right_mono mult_right_mono)
  moreover have "0 \<le> ?p t" using nn by simp
  moreover have "?p t' < 100" by (rule progress_early [OF assms(4)])
  ultimately show ?thesis using f1 f2 by simp
qed

text \<open>No tick before 1500 ms advances: the interval stays scheduled and the session where it was.\<close>

lemma ticks_before_full:
  assumes "map_of (intervals b) i = Some iv" and "\<forall>t\<in>set ts. t - startTime iv < 1500"
  shows "state (ui (ticks i ts b)) = state (ui b)
     \<and> currentStepIdx (ui (ticks i ts b)) = currentStepIdx (ui b)
     \<and> verificationFeedback (ui (ticks i ts b)) = verificationFeedback (ui b)
     \<and> map_of (intervals (ticks i ts b)) i = Some iv"
  using assms
proof (induction ts arbitrary: b)
  case Nil
  then show ?case by simp
next
  case (Cons t ts)
  let ?b' = "b\<lparr>ui := (ui b)\<lparr>overrideProgress := (of_int (t - startTime iv) / 1500) * 100\<rparr>\<rparr>"
  have early: "t - startTime iv < 1500" using Cons.prems(2) by simp
  have f: "fire (Tick i t) b = Some ?b'"
    by (rule tick_early [OF Cons.prems(1) early])
  have "state (ui (ticks i ts ?b')) = state (ui ?b')
     \<and> currentStepIdx (ui (ticks i ts ?b')) = currentStepIdx (ui ?b')
     \<and> verificationFeedback (ui (ticks i ts ?b')) = verificationFeedback (ui ?b')
     \<and> map_of (intervals (ticks i ts ?b')) i = Some iv"
    using Cons.prems by (intro Cons.IH) simp_all
  then show ?case using f by simp
qed

text \<open>
  C8, with two pointers. The override button is pressed at time 0 and, by a second pointer,
  at time 100; then the pointers are released, long before 1500 ms. The second press
  overwrote the ref, so the release cleared the second interval only. The progress is 0 and
  the step index still 0; the first interval is still scheduled. Its tick at 1504 ms advances
  to step 1 although the hold was cancelled. It stays scheduled after that: when the user then
  asks for the verification of step 1, its next tick puts the session back into GUIDANCE, a
  second advance of the same hold.
\<close>

theorem orphaned_interval_advances_after_release:
  "\<exists>a b c. run (to_guidance three_steps @ [PointerDown 0, PointerDown 100, PointerUp]) initial = Some a
     \<and> overrideHeld (ui a) = False \<and> overrideProgress (ui a) = 0
     \<and> state (ui a) = GUIDANCE \<and> currentStepIdx (ui a) = 0
     \<and> run [Tick 1 1504] a = Some b
     \<and> state (ui b) = GUIDANCE \<and> currentStepIdx (ui b) = 1
     \<and> run [SnapToVerify, Tick 1 1520] b = Some c
     \<and> state (ui c) = GUIDANCE \<and> currentStepIdx (ui c) = 1
     \<and> map fst (intervals c) = [1]"
  by (simp add: sample_defs handler_defs)

end
